theory Spec2Isabelle
  imports Complex_Main
begin

section \<open>Numeric values and errors\<close>

text \<open>
  The analysis routines of \<^verbatim>\<open>plot_NG_network.py\<close> work on numpy arrays of 64-bit floats.
  A float is modelled as an exact real number or one of the three IEEE special values;
  rounding and overflow of finite values are idealised away, the special values are
  not: numpy divides by zero without raising (it warns and returns an infinity or NaN),
  and that is what decides several properties below. Signed zeros are not modelled:
  a zero divisor counts as \<open>+0.0\<close>.
\<close>

datatype npfloat = Fin real | PInf | NInf | NaN

datatype py_error =
  NotImplementedError | ValueError | OverflowError | TypeError | IndexError
  | ZeroDivisionError

fun np_neg :: "npfloat \<Rightarrow> npfloat" where
  "np_neg (Fin a) = Fin (- a)"
| "np_neg PInf = NInf"
| "np_neg NInf = PInf"
| "np_neg NaN = NaN"

fun np_add :: "npfloat \<Rightarrow> npfloat \<Rightarrow> npfloat" where
  "np_add (Fin a) (Fin b) = Fin (a + b)"
| "np_add NaN _ = NaN"
| "np_add _ NaN = NaN"
| "np_add PInf NInf = NaN"
| "np_add NInf PInf = NaN"
| "np_add PInf _ = PInf"
| "np_add _ PInf = PInf"
| "np_add NInf _ = NInf"
| "np_add _ NInf = NInf"

definition np_sub :: "npfloat \<Rightarrow> npfloat \<Rightarrow> npfloat" where
  "np_sub a b = np_add a (np_neg b)"

fun np_mul :: "npfloat \<Rightarrow> npfloat \<Rightarrow> npfloat" where
  "np_mul (Fin a) (Fin b) = Fin (a * b)"
| "np_mul NaN _ = NaN"
| "np_mul _ NaN = NaN"
| "np_mul PInf (Fin b) = (if b = 0 then NaN else if 0 < b then PInf else NInf)"
| "np_mul NInf (Fin b) = (if b = 0 then NaN else if 0 < b then NInf else PInf)"
| "np_mul (Fin a) PInf = (if a = 0 then NaN else if 0 < a then PInf else NInf)"
| "np_mul (Fin a) NInf = (if a = 0 then NaN else if 0 < a then NInf else PInf)"
| "np_mul PInf PInf = PInf"
| "np_mul NInf NInf = PInf"
| "np_mul PInf NInf = NInf"
| "np_mul NInf PInf = NInf"

fun np_div :: "npfloat \<Rightarrow> npfloat \<Rightarrow> npfloat" where
  "np_div (Fin a) (Fin b) =
     (if b = 0 then (if a = 0 then NaN else if 0 < a then PInf else NInf)
      else Fin (a / b))"
| "np_div NaN _ = NaN"
| "np_div _ NaN = NaN"
| "np_div (Fin a) PInf = Fin 0"
| "np_div (Fin a) NInf = Fin 0"
| "np_div PInf (Fin b) = (if 0 \<le> b then PInf else NInf)"
| "np_div NInf (Fin b) = (if 0 \<le> b then NInf else PInf)"
| "np_div PInf PInf = NaN"
| "np_div PInf NInf = NaN"
| "np_div NInf PInf = NaN"
| "np_div NInf NInf = NaN"

text \<open>\<^verbatim>\<open>a < b\<close> on floats: every comparison with NaN is false.\<close>

fun np_less :: "npfloat \<Rightarrow> npfloat \<Rightarrow> bool" where
  "np_less (Fin a) (Fin b) = (a < b)"
| "np_less NaN _ = False"
| "np_less _ NaN = False"
| "np_less NInf NInf = False"
| "np_less NInf _ = True"
| "np_less PInf _ = False"
| "np_less (Fin a) PInf = True"
| "np_less (Fin a) NInf = False"

text \<open>\<^verbatim>\<open>sum(a)\<close> and \<^verbatim>\<open>a.sum()\<close>: the sum of the empty array is \<open>0.0\<close>.\<close>

definition np_sum :: "npfloat list \<Rightarrow> npfloat" where
  "np_sum xs = foldl np_add (Fin 0) xs"

text \<open>\<^verbatim>\<open>np.mean(a)\<close>: the sum over the length; \<open>0.0 / 0\<close>, that is NaN, on the empty array.\<close>

definition np_mean :: "npfloat list \<Rightarrow> npfloat" where
  "np_mean xs = np_div (np_sum xs) (Fin (real (length xs)))"

section \<open>\<^verbatim>\<open>variance\<close>\<close>

text \<open>
  \<^verbatim>\<open>
  x = np.array(x)
  N = len(x)
  mean = np.mean(x)
  var = ((x-mean)**2)
  var = var.sum()/(N*(N-1))
  return var
  \<close>
  No statement of the function raises: the division is a numpy division.
\<close>

definition variance :: "npfloat list \<Rightarrow> py_error + npfloat" where
  "variance x =
     (let N = int (length x);
          mean = np_mean x;
          var = map (\<lambda>v. np_mul (np_sub v mean) (np_sub v mean)) x;
          var' = np_div (np_sum var) (Fin (real_of_int (N * (N - 1))))
      in Inr var')"

section \<open>\<^verbatim>\<open>blocking\<close>\<close>

text \<open>
  One pass of the loop body up to \<^verbatim>\<open>x_block\<close>:
  \<^verbatim>\<open>
  N = int(len(x))
  if N%2 != 0:
      N = N-1
  index = np.arange(N)
  odd = index[index%2==0]
  even = index[index%2!=0]
  x1 = x[odd]
  x2 = x[even]
  x_block = (x1+x2)/2.0
  \<close>
  On a natural number \<^verbatim>\<open>index%2 != 0\<close> is \<open>i mod 2 = 1\<close>.
  Every index is below \<open>N \<le> len(x)\<close>, so no read is out of range, and the two index
  arrays have the same length (lemma \<open>x_block_halves_same_length\<close>), so the addition
  never fails to broadcast.
\<close>

definition x_block :: "npfloat list \<Rightarrow> npfloat list" where
  "x_block x =
     (let N = (if length x mod 2 = 0 then length x else length x - 1);
          index = [0..<N];
          odd = filter (\<lambda>i. i mod 2 = 0) index;
          even = filter (\<lambda>i. i mod 2 = 1) index;
          x1 = map (\<lambda>i. x ! i) odd;
          x2 = map (\<lambda>i. x ! i) even
      in map (\<lambda>(a, b). np_div (np_add a b) (Fin 2)) (zip x1 x2))"

text \<open>
  The loop \<^verbatim>\<open>for time in range(k)\<close>, with the remaining number of passes, the current
  \<^verbatim>\<open>x\<close> and \<^verbatim>\<open>variances_list\<close>.
\<close>

fun blocking_loop :: "nat \<Rightarrow> npfloat list \<Rightarrow> npfloat list \<Rightarrow> py_error + npfloat list" where
  "blocking_loop 0 x variances_list = Inr variances_list"
| "blocking_loop (Suc n) x variances_list =
     (let xb = x_block x in
      case variance xb of
        Inl e \<Rightarrow> Inl e
      | Inr var_block \<Rightarrow> blocking_loop n xb (variances_list @ [var_block]))"

text \<open>\<^verbatim>\<open>range(k)\<close> is empty for \<open>k \<le> 0\<close>.\<close>

definition blocking :: "npfloat list \<Rightarrow> int \<Rightarrow> py_error + npfloat list" where
  "blocking x k = blocking_loop (nat k) x []"

text \<open>
  The specification on finite samples, as real numbers. Section 4.3: the variance of a
  sequence of \<open>N\<close> samples is \<open>sum((x_i - mean(x))^2) / (N*(N-1))\<close>.
\<close>

definition spec_mean :: "real list \<Rightarrow> real" where
  "spec_mean xs = sum_list xs / real (length xs)"

definition spec_variance :: "real list \<Rightarrow> real" where
  "spec_variance xs =
     (\<Sum>x\<leftarrow>xs. (x - spec_mean xs)\<^sup>2) / (real (length xs) * (real (length xs) - 1))"

text \<open>
  The blocking step in the words of the specification: adjacent samples are paired and
  averaged, a last sample without a partner is dropped.
\<close>

fun spec_block_average :: "real list \<Rightarrow> real list" where
  "spec_block_average (a # b # xs) = (a + b) / 2 # spec_block_average xs"
| "spec_block_average [a] = []"
| "spec_block_average [] = []"

text \<open>
  The estimate on a blocked sequence: the variance of section 4.3 when there are at
  least 2 samples, and NaN when there are fewer.
\<close>

definition spec_estimate :: "real list \<Rightarrow> npfloat" where
  "spec_estimate xs = (if 2 \<le> length xs then Fin (spec_variance xs) else NaN)"

subsection \<open>The same functions over a store of arrays\<close>

text \<open>
  To speak about the caller's array, arrays live in a store and a variable holds an
  address. Each numpy operation of \<^verbatim>\<open>variance\<close> and \<^verbatim>\<open>blocking\<close> builds a new array:
  \<^verbatim>\<open>np.array(x)\<close> copies, indexing with an index array copies, and \<^verbatim>\<open>x-mean\<close>, \<^verbatim>\<open>**2\<close>,
  \<^verbatim>\<open>x1+x2\<close> and \<^verbatim>\<open>/2.0\<close> return new arrays; the assignment \<^verbatim>\<open>x = x_block\<close> rebinds the
  local name. The integer index arrays are not kept in the store.
\<close>

type_synonym store = "npfloat list list"

definition alloc :: "store \<Rightarrow> npfloat list \<Rightarrow> store \<times> nat" where
  "alloc s a = (s @ [a], length s)"

definition variance_st :: "store \<Rightarrow> nat \<Rightarrow> store \<times> (py_error + npfloat)" where
  "variance_st s x0 =
     (let (s1, x) = alloc s (s ! x0);
          N = int (length (s1 ! x));
          mean = np_mean (s1 ! x);
          (s2, d) = alloc s1 (map (\<lambda>v. np_sub v mean) (s1 ! x));
          (s3, var) = alloc s2 (map (\<lambda>v. np_mul v v) (s2 ! d));
          var' = np_div (np_sum (s3 ! var)) (Fin (real_of_int (N * (N - 1))))
      in (s3, Inr var'))"

definition x_block_st :: "store \<Rightarrow> nat \<Rightarrow> store \<times> nat" where
  "x_block_st s x =
     (let N = (if length (s ! x) mod 2 = 0 then length (s ! x) else length (s ! x) - 1);
          index = [0..<N];
          odd = filter (\<lambda>i. i mod 2 = 0) index;
          even = filter (\<lambda>i. i mod 2 = 1) index;
          (s1, x1) = alloc s (map (\<lambda>i. s ! x ! i) odd);
          (s2, x2) = alloc s1 (map (\<lambda>i. s1 ! x ! i) even);
          (s3, t) = alloc s2 (map (\<lambda>(a, b). np_add a b) (zip (s2 ! x1) (s2 ! x2)))
      in alloc s3 (map (\<lambda>a. np_div a (Fin 2)) (s3 ! t)))"

fun blocking_loop_st ::
  "nat \<Rightarrow> store \<Rightarrow> nat \<Rightarrow> npfloat list \<Rightarrow> store \<times> (py_error + npfloat list)" where
  "blocking_loop_st 0 s x variances_list = (s, Inr variances_list)"
| "blocking_loop_st (Suc n) s x variances_list =
     (case x_block_st s x of (s4, xb) \<Rightarrow>
      case variance_st s4 xb of
        (s5, Inl e) \<Rightarrow> (s5, Inl e)
      | (s5, Inr var_block) \<Rightarrow> blocking_loop_st n s5 xb (variances_list @ [var_block]))"

definition blocking_st :: "store \<Rightarrow> nat \<Rightarrow> int \<Rightarrow> store \<times> (py_error + npfloat list)" where
  "blocking_st s x0 k = (let (s1, x) = alloc s (s ! x0) in blocking_loop_st (nat k) s1 x [])"

section \<open>\<^verbatim>\<open>smoothing_b\<close>\<close>

text \<open>\<^verbatim>\<open>int(x)\<close> truncates toward zero, and raises on an infinity or NaN.\<close>

definition py_trunc :: "real \<Rightarrow> int" where
  "py_trunc r = (if 0 \<le> r then \<lfloor>r\<rfloor> else \<lceil>r\<rceil>)"

fun py_int :: "npfloat \<Rightarrow> py_error + int" where
  "py_int (Fin r) = Inr (py_trunc r)"
| "py_int PInf = Inl OverflowError"
| "py_int NInf = Inl OverflowError"
| "py_int NaN = Inl ValueError"

text \<open>\<^verbatim>\<open>np.round\<close> rounds to the nearest integer, a tie to the even one.\<close>

definition round_half_even :: "real \<Rightarrow> int" where
  "round_half_even r =
     (let f = \<lfloor>r\<rfloor>; d = r - real_of_int f
      in if d < 1 / 2 then f else if 1 / 2 < d then f + 1 else if even f then f else f + 1)"

fun np_round :: "npfloat \<Rightarrow> npfloat" where
  "np_round (Fin r) = Fin (real_of_int (round_half_even r))"
| "np_round PInf = PInf"
| "np_round NInf = NInf"
| "np_round NaN = NaN"

fun np_exp :: "npfloat \<Rightarrow> npfloat" where
  "np_exp (Fin a) = Fin (exp a)"
| "np_exp PInf = PInf"
| "np_exp NInf = Fin 0"
| "np_exp NaN = NaN"

text \<open>\<^verbatim>\<open>np.ones(n)\<close> raises \<^verbatim>\<open>ValueError\<close> on a negative dimension.\<close>

definition np_ones :: "int \<Rightarrow> py_error + npfloat list" where
  "np_ones n = (if n < 0 then Inl ValueError else Inr (replicate (nat n) (Fin 1)))"

text \<open>
  The window before normalisation:
  \<^verbatim>\<open>
  if window == 'gaussian':
      width_dt = int(np.round(2*width / ddt))
      window = np.exp(-np.arange(-width_dt, width_dt + 1)**2 * 1. / (2 * (width/ddt) ** 2))
  elif window == 'flat':
      width_dt = int(width / 2 / ddt)*2 + 1
      used_width = width_dt * ddt
      if abs(used_width - width) > 1e-6*ddt:
          logger.info(...)
      window = np.ones(width_dt)
  else:
      raise NotImplementedError(f'Unknown pre-defined window "{window}"')
  \<close>
  \<^verbatim>\<open>width\<close> and \<^verbatim>\<open>ddt\<close> are floats (quantities of the simulator, whose arithmetic is
  numpy's); the default \<^verbatim>\<open>width=None\<close> makes the first arithmetic operation raise
  \<^verbatim>\<open>TypeError\<close>. \<^verbatim>\<open>np.arange(-w, w + 1)\<close> is the integers from \<open>-w\<close> to \<open>w\<close>, none for
  \<open>w < 0\<close>.
\<close>

text \<open>The denominator of the exponent, \<^verbatim>\<open>(2 * (width/ddt) ** 2)\<close>.\<close>

definition gaussian_denominator :: "npfloat \<Rightarrow> npfloat \<Rightarrow> npfloat" where
  "gaussian_denominator width ddt = np_mul (Fin 2) (np_mul (np_div width ddt) (np_div width ddt))"

definition gaussian_window :: "npfloat \<Rightarrow> npfloat \<Rightarrow> py_error + npfloat list" where
  "gaussian_window width ddt =
     (case py_int (np_round (np_div (np_mul (Fin 2) width) ddt)) of
        Inl e \<Rightarrow> Inl e
      | Inr width_dt \<Rightarrow>
          Inr (map (\<lambda>k. np_exp (np_div (np_mul (Fin (real_of_int (- (k * k)))) (Fin 1))
                                    (gaussian_denominator width ddt)))
                 [- width_dt..width_dt]))"

text \<open>
  Modelled from the spec: the source files do not bind the name \<^verbatim>\<open>logger\<close> (it is left
  to \<^verbatim>\<open>from brian2 import *\<close>); by section 4.2 of the specification an adjusted flat
  width is a non-fatal adjustment that is reported, so the call \<^verbatim>\<open>logger.info(...)\<close>
  returns without raising.
\<close>

definition logger_info :: "py_error + unit" where
  "logger_info = Inr ()"

fun np_abs :: "npfloat \<Rightarrow> npfloat" where
  "np_abs (Fin a) = Fin \<bar>a\<bar>"
| "np_abs PInf = PInf"
| "np_abs NInf = PInf"
| "np_abs NaN = NaN"

definition flat_window :: "npfloat \<Rightarrow> npfloat \<Rightarrow> py_error + npfloat list" where
  "flat_window width ddt =
     (case py_int (np_div (np_div width (Fin 2)) ddt) of
        Inl e \<Rightarrow> Inl e
      | Inr t \<Rightarrow>
          (let width_dt = t * 2 + 1;
               used_width = np_mul (Fin (real_of_int width_dt)) ddt
           in case (if np_less (np_mul (Fin (1 / 1000000)) ddt) (np_abs (np_sub used_width width))
                    then logger_info else Inr ()) of
                Inl e \<Rightarrow> Inl e
              | Inr u \<Rightarrow> np_ones width_dt))"

definition smoothing_window ::
  "string \<Rightarrow> npfloat option \<Rightarrow> npfloat \<Rightarrow> py_error + npfloat list" where
  "smoothing_window window width ddt =
     (if window = ''gaussian'' then
        (case width of None \<Rightarrow> Inl TypeError | Some w \<Rightarrow> gaussian_window w ddt)
      else if window = ''flat'' then
        (case width of None \<Rightarrow> Inl TypeError | Some w \<Rightarrow> flat_window w ddt)
      else Inl NotImplementedError)"

text \<open>The second argument of the convolution, \<^verbatim>\<open>window * 1. / sum(window)\<close>.\<close>

definition normalise :: "npfloat list \<Rightarrow> npfloat list" where
  "normalise window = map (\<lambda>w. np_div (np_mul w (Fin 1)) (np_sum window)) window"

definition smoothing_kernel ::
  "string \<Rightarrow> npfloat option \<Rightarrow> npfloat \<Rightarrow> py_error + npfloat list" where
  "smoothing_kernel window width ddt =
     (case smoothing_window window width ddt of
        Inl e \<Rightarrow> Inl e
      | Inr w \<Rightarrow> Inr (normalise w))"

text \<open>
  \<^verbatim>\<open>np.convolve(a, v, mode='same')\<close>, as numpy documents it: the full discrete convolution
  has \<open>len(a) + len(v) - 1\<close> elements, element \<open>n\<close> being the sum of \<open>a[m] * v[n - m]\<close>
  over the \<open>m\<close> where both indices are in range; mode \<open>same\<close> returns its centred part
  of length \<open>max(len(a), len(v))\<close>; an empty argument raises \<^verbatim>\<open>ValueError\<close>.
\<close>

definition np_convolve_full :: "npfloat list \<Rightarrow> npfloat list \<Rightarrow> npfloat list" where
  "np_convolve_full a v =
     map (\<lambda>n. np_sum (map (\<lambda>m. np_mul (a ! m) (v ! (n - m)))
                         (filter (\<lambda>m. m \<le> n \<and> n - m < length v) [0..<length a])))
       [0..<length a + length v - 1]"

definition np_convolve_same :: "npfloat list \<Rightarrow> npfloat list \<Rightarrow> py_error + npfloat list" where
  "np_convolve_same a v =
     (if a = [] \<or> v = [] then Inl ValueError
      else Inr (take (max (length a) (length v))
                  (drop ((min (length a) (length v) - 1) div 2) (np_convolve_full a v))))"

definition smoothing_b ::
  "npfloat list \<Rightarrow> string \<Rightarrow> npfloat option \<Rightarrow> npfloat \<Rightarrow> py_error + npfloat list" where
  "smoothing_b x window width ddt =
     (case smoothing_kernel window width ddt of
        Inl e \<Rightarrow> Inl e
      | Inr ker \<Rightarrow> np_convolve_same x ker)"

section \<open>\<^verbatim>\<open>neurons_firing\<close>\<close>

text \<open>\<^verbatim>\<open>np.unique\<close>: the distinct values, in ascending order.\<close>

definition np_unique :: "int list \<Rightarrow> int list" where
  "np_unique xs = sort (remdups xs)"

text \<open>
  The body of the loop over \<^verbatim>\<open>indeces\<close>:
  \<^verbatim>\<open>
  spikes = [spk for spk in t_spikes[neurons_i==ind] if (spk > time_start and spk < time_stop)]
  firing_rate = len(spikes)/time
  neurons_fr.append(firing_rate)
  \<close>
  Indexing with the boolean mask \<^verbatim>\<open>neurons_i==ind\<close> raises \<^verbatim>\<open>IndexError\<close> when the two
  arrays differ in length; \<^verbatim>\<open>time\<close> is a quantity, so the division is numpy's.
\<close>

fun firing_loop ::
  "npfloat list \<Rightarrow> int list \<Rightarrow> npfloat \<Rightarrow> npfloat \<Rightarrow> npfloat \<Rightarrow> int list \<Rightarrow> npfloat list
   \<Rightarrow> py_error + npfloat list" where
  "firing_loop t_spikes neurons_i time_start time_stop time [] neurons_fr = Inr neurons_fr"
| "firing_loop t_spikes neurons_i time_start time_stop time (ind # rest) neurons_fr =
     (if length t_spikes = length neurons_i then
        (let spikes = filter (\<lambda>spk. np_less time_start spk \<and> np_less spk time_stop)
                        (map fst (filter (\<lambda>(spk, i). i = ind) (zip t_spikes neurons_i)));
             firing_rate = np_div (Fin (real (length spikes))) time
         in firing_loop t_spikes neurons_i time_start time_stop time rest
              (neurons_fr @ [firing_rate]))
      else Inl IndexError)"

text \<open>The unit \<^verbatim>\<open>second\<close> has the value 1.\<close>

definition second :: npfloat where
  "second = Fin 1"

definition neurons_firing ::
  "npfloat list \<Rightarrow> int list \<Rightarrow> npfloat \<Rightarrow> npfloat \<Rightarrow> py_error + npfloat list" where
  "neurons_firing t_spikes neurons_i time_start time_stop =
     (let indeces = np_unique neurons_i;
          time = np_mul (np_sub time_stop time_start) second
      in firing_loop t_spikes neurons_i time_start time_stop time indeces [])"

text \<open>
  The rate of one neuron in the words of the specification: the number of its spikes
  with a timestamp in \<open>[t0, t1)\<close>, over \<open>t1 - t0\<close>.
\<close>

fun np_le :: "npfloat \<Rightarrow> npfloat \<Rightarrow> bool" where
  "np_le (Fin a) (Fin b) = (a \<le> b)"
| "np_le NaN _ = False"
| "np_le _ NaN = False"
| "np_le NInf _ = True"
| "np_le _ PInf = True"
| "np_le PInf _ = False"
| "np_le (Fin a) NInf = False"

definition spec_rate :: "npfloat list \<Rightarrow> int list \<Rightarrow> npfloat \<Rightarrow> npfloat \<Rightarrow> int \<Rightarrow> npfloat" where
  "spec_rate t_spikes neurons_i t0 t1 ind =
     np_div (Fin (real (length (filter (\<lambda>(spk, i). i = ind \<and> np_le t0 spk \<and> np_less spk t1)
                                   (zip t_spikes neurons_i)))))
       (np_sub t1 t0)"

text \<open>The rate with both bounds of the window excluded.\<close>

definition open_rate :: "npfloat list \<Rightarrow> int list \<Rightarrow> npfloat \<Rightarrow> npfloat \<Rightarrow> int \<Rightarrow> npfloat" where
  "open_rate t_spikes neurons_i t0 t1 ind =
     np_div (Fin (real (length (filter (\<lambda>(spk, i). i = ind \<and> np_less t0 spk \<and> np_less spk t1)
                                   (zip t_spikes neurons_i)))))
       (np_sub t1 t0)"

section \<open>\<^verbatim>\<open>standard_error_I\<close>\<close>

text \<open>\<^verbatim>\<open>a[start:stop]\<close>: a negative bound counts from the end, and bounds are clipped.\<close>

definition py_slice_bound :: "int \<Rightarrow> int \<Rightarrow> int" where
  "py_slice_bound n i = (if i < 0 then max 0 (n + i) else min n i)"

definition py_slice :: "'a list \<Rightarrow> int \<Rightarrow> int \<Rightarrow> 'a list" where
  "py_slice xs start stop =
     (let n = int (length xs); a = py_slice_bound n start; b = py_slice_bound n stop
      in take (nat (b - a)) (drop (nat a) xs))"

fun np_sqrt :: "npfloat \<Rightarrow> npfloat" where
  "np_sqrt (Fin a) = (if a < 0 then NaN else Fin (sqrt a))"
| "np_sqrt PInf = PInf"
| "np_sqrt NInf = NaN"
| "np_sqrt NaN = NaN"

text \<open>\<^verbatim>\<open>a.std()\<close>: the square root of the mean squared deviation from the mean.\<close>

definition np_std :: "npfloat list \<Rightarrow> npfloat" where
  "np_std xs =
     (let m = np_mean xs
      in np_sqrt (np_mean (map (\<lambda>v. np_mul (np_sub v m) (np_sub v m)) xs)))"

text \<open>
  \<^verbatim>\<open>a.max()\<close> and \<^verbatim>\<open>a.min()\<close> return NaN when an element is NaN, and raise \<^verbatim>\<open>ValueError\<close>
  on an empty array.
\<close>

definition np_maximum :: "npfloat \<Rightarrow> npfloat \<Rightarrow> npfloat" where
  "np_maximum a b = (if a = NaN \<or> b = NaN then NaN else if np_less a b then b else a)"

definition np_minimum :: "npfloat \<Rightarrow> npfloat \<Rightarrow> npfloat" where
  "np_minimum a b = (if a = NaN \<or> b = NaN then NaN else if np_less b a then b else a)"

definition np_amax :: "npfloat list \<Rightarrow> py_error + npfloat" where
  "np_amax xs = (case xs of [] \<Rightarrow> Inl ValueError | y # ys \<Rightarrow> Inr (foldl np_maximum y ys))"

definition np_amin :: "npfloat list \<Rightarrow> py_error + npfloat" where
  "np_amin xs = (case xs of [] \<Rightarrow> Inl ValueError | y # ys \<Rightarrow> Inr (foldl np_minimum y ys))"

text \<open>
  The loop \<^verbatim>\<open>for i in range(N_mean)\<close> over the remaining values of \<^verbatim>\<open>i\<close>:
  \<^verbatim>\<open>
  start = i*N_window
  stop = (i+1)*N_window
  I_mean = I[start:stop]
  I_list.append(I_mean.mean())
  I_list_err.append(I_mean.std())
  \<close>
\<close>

fun window_loop ::
  "npfloat list \<Rightarrow> int \<Rightarrow> nat list \<Rightarrow> npfloat list \<Rightarrow> npfloat list
   \<Rightarrow> npfloat list \<times> npfloat list" where
  "window_loop I N_window [] I_list I_list_err = (I_list, I_list_err)"
| "window_loop I N_window (i # rest) I_list I_list_err =
     (let start = int i * N_window;
          stop = (int i + 1) * N_window;
          I_mean = py_slice I start stop
      in window_loop I N_window rest (I_list @ [np_mean I_mean]) (I_list_err @ [np_std I_mean]))"

text \<open>
  \<^verbatim>\<open>N_window = int(N/N_mean)\<close> divides two Python integers, which raises
  \<^verbatim>\<open>ZeroDivisionError\<close> for \<open>N_mean = 0\<close>. The two ways to the error:
  \<^verbatim>\<open>
  if N_mean < 30 :
      error = (I_list.max()-I_list.min())/2
  else:
      std_square = I_list_err*I_list_err
      std_sum = std_square.sum(axis=0)
      error = np.sqrt(std_sum)/std_square.shape[0]
  return I_list.mean(), error
  \<close>
\<close>

definition half_range :: "npfloat list \<Rightarrow> py_error + npfloat" where
  "half_range I_list =
     (case np_amax I_list of
        Inl e \<Rightarrow> Inl e
      | Inr mx \<Rightarrow>
          (case np_amin I_list of
             Inl e \<Rightarrow> Inl e
           | Inr mn \<Rightarrow> Inr (np_div (np_sub mx mn) (Fin 2))))"

definition quadrature :: "npfloat list \<Rightarrow> npfloat" where
  "quadrature I_list_err =
     (let std_square = map (\<lambda>s. np_mul s s) I_list_err;
          std_sum = np_sum std_square
      in np_div (np_sqrt std_sum) (Fin (real (length std_square))))"

definition standard_error_I :: "npfloat list \<Rightarrow> int \<Rightarrow> py_error + npfloat \<times> npfloat" where
  "standard_error_I I N_mean =
     (let N = int (length I) in
      if N_mean = 0 then Inl ZeroDivisionError
      else
        (let N_window = py_trunc (real_of_int N / real_of_int N_mean);
             (I_list, I_list_err) = window_loop I N_window [0..<nat N_mean] [] []
         in if N_mean < 30 then
              (case half_range I_list of
                 Inl e \<Rightarrow> Inl e
               | Inr error \<Rightarrow> Inr (np_mean I_list, error))
            else Inr (np_mean I_list, quadrature I_list_err)))"

text \<open>
  The windows in the words of the claim: window \<open>i\<close> of \<open>n\<close> is \<open>I[i*W : (i+1)*W]\<close> with
  \<open>W = floor(len(I)/n)\<close>.
\<close>

definition spec_window :: "'a list \<Rightarrow> nat \<Rightarrow> nat \<Rightarrow> 'a list" where
  "spec_window I n i = (let W = length I div n in take W (drop (i * W) I))"

text \<open>The window means of finite samples, as real numbers.\<close>

definition spec_window_means :: "real list \<Rightarrow> nat \<Rightarrow> real list" where
  "spec_window_means I n = map (\<lambda>i. spec_mean (spec_window I n i)) [0..<n]"

text \<open>The window means and deviations as numpy computes them.\<close>

definition np_window_means :: "npfloat list \<Rightarrow> nat \<Rightarrow> npfloat list" where
  "np_window_means I n = map (\<lambda>i. np_mean (spec_window I n i)) [0..<n]"

definition np_window_stds :: "npfloat list \<Rightarrow> nat \<Rightarrow> npfloat list" where
  "np_window_stds I n = map (\<lambda>i. np_std (spec_window I n i)) [0..<n]"

section \<open>Arithmetic on finite values\<close>

lemma foldl_np_add_Fin: "foldl np_add (Fin a) (map Fin rs) = Fin (a + sum_list rs)"
  by (induction rs arbitrary: a) (simp_all add: add.assoc)

lemma np_sum_Fin: "np_sum (map Fin rs) = Fin (sum_list rs)"
  by (simp add: np_sum_def foldl_np_add_Fin)

lemma np_mean_Fin:
  "rs \<noteq> [] \<Longrightarrow> np_mean (map Fin rs) = Fin (sum_list rs / real (length rs))"
  by (simp add: np_mean_def np_sum_Fin)

lemma foldl_np_add_NaN: "foldl np_add NaN xs = NaN"
  by (induction xs) simp_all

section \<open>Properties of \<^verbatim>\<open>variance\<close>\<close>

text \<open>
  C2. On a sequence of \<open>N \<ge> 2\<close> finite samples, \<^verbatim>\<open>variance\<close> returns
  \<open>sum((x_i - mean(x))^2) / (N*(N-1))\<close>; on \<open>[1,1,1,1]\<close> it returns 0 and on \<open>[0,2]\<close>
  it returns 1.
\<close>

theorem variance_formula:
  assumes "2 \<le> length rs"
  shows "variance (map Fin rs) =
           Inr (Fin ((\<Sum>r\<leftarrow>rs. (r - sum_list rs / real (length rs))\<^sup>2)
                     / (real (length rs) * (real (length rs) - 1))))
         \<and> variance [Fin 1, Fin 1, Fin 1, Fin 1] = Inr (Fin 0)
         \<and> variance [Fin 0, Fin 2] = Inr (Fin 1)"
proof -
  let ?m = "sum_list rs / real (length rs)"
  from assms have ne: "rs \<noteq> []" by auto
  have sq: "map (\<lambda>v. np_mul (np_sub v (Fin ?m)) (np_sub v (Fin ?m))) (map Fin rs)
            = map Fin (map (\<lambda>r. (r - ?m)\<^sup>2) rs)"
    by (simp add: np_sub_def power2_eq_square)
  from assms have nz: "real (length rs) * (real (length rs) - 1) \<noteq> 0" by auto
  have den: "real_of_int (int (length rs) * (int (length rs) - 1))
             = real (length rs) * (real (length rs) - 1)"
    by simp
  have general: "variance (map Fin rs) =
           Inr (Fin ((\<Sum>r\<leftarrow>rs. (r - ?m)\<^sup>2)
                     / (real (length rs) * (real (length rs) - 1))))"
    unfolding variance_def Let_def length_map np_mean_Fin [OF ne] sq np_sum_Fin den
    using nz by simp
  have ones: "variance [Fin 1, Fin 1, Fin 1, Fin 1] = Inr (Fin 0)"
    by (simp add: variance_def np_mean_def np_sum_def np_sub_def)
  have two: "variance [Fin 0, Fin 2] = Inr (Fin 1)"
    by (simp add: variance_def np_mean_def np_sum_def np_sub_def)
  from general ones two show ?thesis by simp
qed

theorem variance_formula_witness:
  "2 \<le> length [0, 2 :: real] \<and> variance (map Fin [0, 2]) = Inr (Fin 1)"
  using variance_formula [of "[0, 2]"] by simp

text \<open>
  C3, as stated: a sequence of fewer than 2 samples makes \<^verbatim>\<open>variance\<close> fail with an
  error. The code has no such check, and numpy's division by zero does not raise: on
  the one-sample sequence \<open>[5.0]\<close> the call returns NaN as an ordinary result.
\<close>

theorem variance_one_sample_returns_nan: "variance [Fin 5] = Inr NaN"
  by (simp add: variance_def np_mean_def np_sum_def np_sub_def)

text \<open>
  C3, amended. For every sequence of fewer than 2 samples (whatever the sample, also an
  infinity or NaN) \<^verbatim>\<open>variance\<close> raises nothing and returns NaN.
\<close>

theorem variance_insufficient_samples:
  assumes "length x < 2"
  shows "variance x = Inr NaN"
proof (cases x)
  case Nil
  then show ?thesis
    by (simp add: variance_def np_mean_def np_sum_def)
next
  case (Cons a ys)
  with assms have x: "x = [a]" by simp
  show ?thesis
    unfolding x by (cases a) (simp_all add: variance_def np_mean_def np_sum_def np_sub_def)
qed

theorem variance_insufficient_samples_witness:
  "length [PInf] < 2 \<and> variance [PInf] = Inr NaN"
  using variance_insufficient_samples [of "[PInf]"] by simp

section \<open>Properties of \<^verbatim>\<open>blocking\<close>\<close>

lemma filter_even_upt: "filter (\<lambda>i. i mod 2 = 0) [0..<2 * m] = map (\<lambda>j. 2 * j) [0..<m]"
  by (induction m) simp_all

lemma filter_odd_upt: "filter (\<lambda>i. i mod 2 = 1) [0..<2 * m] = map (\<lambda>j. 2 * j + 1) [0..<m]"
  by (induction m) simp_all

lemma blocked_length:
  "(if length x mod 2 = 0 then length x else length x - 1) = 2 * (length x div 2)"
  by presburger

lemma x_block_halves_same_length:
  "length (filter (\<lambda>i. i mod 2 = 0) [0..<2 * m])
   = length (filter (\<lambda>i. i mod 2 = 1) [0..<2 * m])"
  by (simp only: filter_even_upt filter_odd_upt length_map)

text \<open>Element \<open>j\<close> of the blocked array is the average of the samples \<open>2j\<close> and \<open>2j+1\<close>.\<close>

lemma x_block_eq_map:
  "x_block x =
     map (\<lambda>j. np_div (np_add (x ! (2 * j)) (x ! (2 * j + 1))) (Fin 2)) [0..<length x div 2]"
  unfolding x_block_def Let_def blocked_length filter_even_upt filter_odd_upt
  by (simp add: zip_map_map zip_same_conv_map)

lemma spec_block_average_eq_map:
  "spec_block_average x =
     map (\<lambda>j. (x ! (2 * j) + x ! (2 * j + 1)) / 2) [0..<length x div 2]"
proof (induction x rule: spec_block_average.induct)
  case (1 a b xs)
  have "[0..<Suc (length xs div 2)] = 0 # map Suc [0..<length xs div 2]"
    by (simp add: upt_conv_Cons map_Suc_upt del: upt_Suc)
  with 1 show ?case by (simp add: comp_def del: upt_Suc)
qed simp_all

text \<open>On finite samples the loop body computes the blocking step of the specification.\<close>

lemma x_block_finite: "x_block (map Fin rs) = map Fin (spec_block_average rs)"
  unfolding x_block_eq_map spec_block_average_eq_map map_map length_map
proof (rule map_cong [OF refl])
  fix j assume "j \<in> set [0..<length rs div 2]"
  then have "2 * j + 1 < length rs" by simp
  then show "np_div (np_add (map Fin rs ! (2 * j)) (map Fin rs ! (2 * j + 1))) (Fin 2)
             = (Fin \<circ> (\<lambda>j. (rs ! (2 * j) + rs ! (2 * j + 1)) / 2)) j"
    by simp
qed

lemma variance_finite:
  assumes "2 \<le> length rs"
  shows "variance (map Fin rs) = Inr (Fin (spec_variance rs))"
proof -
  let ?m = "sum_list rs / real (length rs)"
  from assms have ne: "rs \<noteq> []" by auto
  have sq: "map (\<lambda>v. np_mul (np_sub v (Fin ?m)) (np_sub v (Fin ?m))) (map Fin rs)
            = map Fin (map (\<lambda>r. (r - ?m)\<^sup>2) rs)"
    by (simp add: np_sub_def power2_eq_square)
  from assms have nz: "real (length rs) * (real (length rs) - 1) \<noteq> 0" by auto
  have den: "real_of_int (int (length rs) * (int (length rs) - 1))
             = real (length rs) * (real (length rs) - 1)"
    by simp
  show ?thesis
    unfolding variance_def Let_def length_map np_mean_Fin [OF ne] sq np_sum_Fin den
      spec_variance_def spec_mean_def
    using nz by simp
qed

lemma variance_short:
  assumes "length x < 2"
  shows "variance x = Inr NaN"
proof (cases x)
  case Nil
  then show ?thesis
    by (simp add: variance_def np_mean_def np_sum_def)
next
  case (Cons a ys)
  with assms have x: "x = [a]" by simp
  show ?thesis
    unfolding x by (cases a) (simp_all add: variance_def np_mean_def np_sum_def np_sub_def)
qed

lemma variance_estimate: "variance (map Fin rs) = Inr (spec_estimate rs)"
proof (cases "2 \<le> length rs")
  case True
  then show ?thesis by (simp add: variance_finite spec_estimate_def)
next
  case False
  then have "length (map Fin rs) < 2" by simp
  from variance_short [OF this] False show ?thesis by (simp add: spec_estimate_def)
qed

lemma blocking_loop_estimates:
  "\<exists>vs. blocking_loop n x acc = Inr (acc @ vs) \<and> length vs = n
        \<and> map Inr vs = map (\<lambda>i. variance ((x_block ^^ Suc i) x)) [0..<n]"
proof (induction n arbitrary: x acc)
  case 0
  show ?case by simp
next
  case (Suc n)
  obtain v where v: "variance (x_block x) = Inr v"
    by (simp add: variance_def Let_def)
  from Suc.IH [of "x_block x" "acc @ [v]"] obtain vs where
    vs: "blocking_loop n (x_block x) (acc @ [v]) = Inr ((acc @ [v]) @ vs)" "length vs = n"
      "map Inr vs = map (\<lambda>i. variance ((x_block ^^ Suc i) (x_block x))) [0..<n]"
    by blast
  have split: "[0..<Suc n] = 0 # map Suc [0..<n]"
    by (simp add: upt_conv_Cons map_Suc_upt del: upt_Suc)
  have "map Inr (v # vs) = map (\<lambda>i. variance ((x_block ^^ Suc i) x)) [0..<Suc n]"
    unfolding split using v vs(3) by (simp add: comp_def funpow_swap1 del: upt_Suc)
  moreover have "blocking_loop (Suc n) x acc = Inr (acc @ v # vs)"
    using v vs(1) by simp
  moreover have "length (v # vs) = Suc n" using vs(2) by simp
  ultimately show ?case by blast
qed

text \<open>Whatever the samples, also infinities and NaN, the call returns \<open>k\<close> values.\<close>

lemma blocking_returns: "\<exists>vs. blocking x k = Inr vs \<and> length vs = nat k"
  using blocking_loop_estimates [of "nat k" x "[]"] by (auto simp: blocking_def)

lemma blocking_loop_finite:
  "blocking_loop n (map Fin rs) acc
   = Inr (acc @ map (\<lambda>i. spec_estimate ((spec_block_average ^^ Suc i) rs)) [0..<n])"
proof (induction n arbitrary: rs acc)
  case 0
  show ?case by simp
next
  case (Suc n)
  have split: "[0..<Suc n] = 0 # map Suc [0..<n]"
    by (simp add: upt_conv_Cons map_Suc_upt del: upt_Suc)
  show ?case
    unfolding split
    by (simp add: x_block_finite variance_estimate Suc.IH comp_def funpow_swap1 del: upt_Suc)
qed

lemma blocking_three_levels:
  "blocking (map Fin [1, 3, 5, 7, 2, 4, 8, 10]) 3 = Inr [Fin (5 / 2), Fin 1, NaN]"
  by code_simp

text \<open>
  C1, as stated: every element of the result is the variance of section 4.3 of a blocked
  sequence. One blocking step takes \<open>[1, 3]\<close> to the one-sample sequence \<open>[2]\<close>, on
  which \<^verbatim>\<open>variance\<close> divides by zero: the estimate that \<^verbatim>\<open>blocking([1, 3], 1)\<close> returns is
  NaN, and no number.
\<close>

theorem blocking_short_block:
  "blocking [Fin 1, Fin 3] 1 = Inr [NaN]
   \<and> spec_block_average [1, 3] = [2]
   \<and> blocking [Fin 1, Fin 3] 1 \<noteq> Inr [Fin (spec_variance (spec_block_average [1, 3]))]"
proof -
  have "blocking [Fin 1, Fin 3] 1 = Inr [NaN]" by code_simp
  then show ?thesis by simp
qed

text \<open>
  C1, amended. For every sequence \<open>x\<close> and every \<open>k\<close>, \<^verbatim>\<open>blocking(x, k)\<close> raises
  nothing and returns a list of exactly \<open>k\<close> values, the empty list for \<open>k = 0\<close>. For
  finite samples, its \<open>i\<close>-th element is determined by the sequence obtained from \<open>x\<close>
  by \<open>i+1\<close> blocking steps of the specification: it is the variance of section 4.3,
  \<open>sum((y_j - mean(y))^2) / (M*(M-1))\<close>, of that sequence when it has \<open>M \<ge> 2\<close> samples,
  and NaN when it has fewer.
\<close>

theorem blocking_estimates:
  "(\<exists>vs. blocking x k = Inr vs \<and> length vs = nat k)
   \<and> blocking (map Fin rs) k
     = Inr (map (\<lambda>i. spec_estimate ((spec_block_average ^^ Suc i) rs)) [0..<nat k])"
  using blocking_returns [of x k] blocking_loop_finite [of "nat k" rs "[]"]
  by (simp add: blocking_def)

subsection \<open>The caller's array\<close>

lemma variance_st_eq: "\<exists>ext. variance_st s x = (s @ ext, variance (s ! x))"
  by (simp add: variance_st_def alloc_def Let_def variance_def nth_append comp_def)

lemma nth_append_left: "x < length s \<Longrightarrow> (s @ e) ! x = s ! x"
  by (simp add: nth_append)

lemma x_block_st_eq:
  assumes "x < length s"
  shows "\<exists>ext. x_block_st s x = (s @ ext @ [x_block (s ! x)], length s + length ext)"
proof -
  define N where "N = (if length (s ! x) mod 2 = 0 then length (s ! x) else length (s ! x) - 1)"
  define x1 where "x1 = map (\<lambda>i. s ! x ! i) (filter (\<lambda>i. i mod 2 = 0) [0..<N])"
  define x2 where "x2 = map (\<lambda>i. s ! x ! i) (filter (\<lambda>i. i mod 2 = 1) [0..<N])"
  define t where "t = map (\<lambda>(a, b). np_add a b) (zip x1 x2)"
  have xb: "map (\<lambda>a. np_div a (Fin 2)) t = x_block (s ! x)"
    unfolding t_def x1_def x2_def N_def x_block_def Let_def
    by (simp add: comp_def split_def)
  have r1: "(s @ [x1]) ! x = s ! x"
    using assms by (rule nth_append_left)
  have r2: "((s @ [x1]) @ [x2]) ! length s = x1"
    by (simp add: nth_append)
  have r3: "((s @ [x1]) @ [x2]) ! length (s @ [x1]) = x2"
    by (rule nth_append_length)
  have r4: "(((s @ [x1]) @ [x2]) @ [t]) ! length ((s @ [x1]) @ [x2]) = t"
    by (rule nth_append_length)
  have "x_block_st s x
        = ((((s @ [x1]) @ [x2]) @ [t]) @ [map (\<lambda>a. np_div a (Fin 2)) t],
           length (((s @ [x1]) @ [x2]) @ [t]))"
    unfolding x_block_st_def alloc_def Let_def prod.case N_def [symmetric]
      x1_def [symmetric] r1 x2_def [symmetric] r2 r3 t_def [symmetric] r4 ..
  then have "x_block_st s x
             = (s @ [x1, x2, t] @ [x_block (s ! x)], length s + length [x1, x2, t])"
    unfolding xb by simp
  then show ?thesis by blast
qed

text \<open>The loop over the store only appends arrays, and computes what the loop on values does.\<close>

lemma blocking_loop_st_eq:
  assumes "x < length s"
  shows "\<exists>ext. blocking_loop_st n s x acc = (s @ ext, blocking_loop n (s ! x) acc)"
  using assms
proof (induction n arbitrary: s x acc)
  case 0
  have "blocking_loop_st 0 s x acc = (s @ [], blocking_loop 0 (s ! x) acc)" by simp
  then show ?case by blast
next
  case (Suc n)
  from x_block_st_eq [OF Suc.prems] obtain e1 where
    e1: "x_block_st s x = (s @ e1 @ [x_block (s ! x)], length s + length e1)" by blast
  let ?s4 = "s @ e1 @ [x_block (s ! x)]"
  let ?xb = "length s + length e1"
  have xb: "?s4 ! ?xb = x_block (s ! x)"
    by (simp add: nth_append)
  from variance_st_eq [of ?s4 ?xb] obtain e2 where
    e2: "variance_st ?s4 ?xb = (?s4 @ e2, variance (x_block (s ! x)))"
    unfolding xb by blast
  obtain v where v: "variance (x_block (s ! x)) = Inr v"
    by (simp add: variance_def Let_def)
  have lt: "?xb < length (?s4 @ e2)" by simp
  from Suc.IH [OF lt, of "acc @ [v]"] obtain e3 where
    e3: "blocking_loop_st n (?s4 @ e2) ?xb (acc @ [v])
         = ((?s4 @ e2) @ e3, blocking_loop n ((?s4 @ e2) ! ?xb) (acc @ [v]))" by blast
  have xb2: "(?s4 @ e2) ! ?xb = x_block (s ! x)"
    by (simp add: nth_append)
  have "blocking_loop_st (Suc n) s x acc
        = (s @ (e1 @ [x_block (s ! x)] @ e2 @ e3), blocking_loop (Suc n) (s ! x) acc)"
    using e1 e2 e3 v unfolding xb2 by simp
  then show ?case by blast
qed

lemma blocking_example: "blocking [Fin 1, Fin 3, Fin 5, Fin 7] 2 = Inr [Fin 4, NaN]"
  by code_simp

text \<open>
  C9. \<^verbatim>\<open>blocking(x, k)\<close> leaves the caller's array unchanged: in the store after the
  call, every array that existed before the call, the input among them, holds what it
  held before; the call computes on copies, and its result is the one of \<^verbatim>\<open>blocking\<close> on
  the content of the input.
\<close>

theorem blocking_leaves_input:
  assumes "x < length s"
  shows "take (length s) (fst (blocking_st s x k)) = s
         \<and> fst (blocking_st s x k) ! x = s ! x
         \<and> snd (blocking_st s x k) = blocking (s ! x) k"
proof -
  have lt: "length s < length (s @ [s ! x])" by simp
  from blocking_loop_st_eq [OF lt, of "nat k" "[]"] obtain ext where
    ext: "blocking_loop_st (nat k) (s @ [s ! x]) (length s) []
          = ((s @ [s ! x]) @ ext, blocking_loop (nat k) ((s @ [s ! x]) ! length s) [])"
    by blast
  have st: "blocking_st s x k = (s @ ([s ! x] @ ext), blocking (s ! x) k)"
    using ext by (simp add: blocking_st_def alloc_def blocking_def)
  show ?thesis unfolding st using assms by (simp add: nth_append)
qed

theorem blocking_leaves_input_witness:
  "(0::nat) < length [[Fin 1, Fin 3, Fin 5, Fin 7]]
   \<and> fst (blocking_st [[Fin 1, Fin 3, Fin 5, Fin 7]] 0 2) ! 0 = [Fin 1, Fin 3, Fin 5, Fin 7]
   \<and> snd (blocking_st [[Fin 1, Fin 3, Fin 5, Fin 7]] 0 2) = Inr [Fin 4, NaN]"
proof -
  have h: "(0::nat) < length [[Fin 1, Fin 3, Fin 5, Fin 7]]" by simp
  from blocking_leaves_input [OF h, of 2] blocking_example h show ?thesis by simp
qed

section \<open>Properties of \<^verbatim>\<open>smoothing_b\<close>\<close>

text \<open>
  C7. A window name that is neither \<open>gaussian\<close> nor \<open>flat\<close> makes \<^verbatim>\<open>smoothing_b\<close> raise
  (\<^verbatim>\<open>NotImplementedError\<close>, the error the specification calls UnsupportedKernel),
  whatever the signal, the width and the sampling interval; nothing is returned.
\<close>

theorem smoothing_b_unknown_window:
  assumes "window \<noteq> ''gaussian''" and "window \<noteq> ''flat''"
  shows "smoothing_b x window width ddt = Inl NotImplementedError"
  using assms by (simp add: smoothing_b_def smoothing_kernel_def smoothing_window_def)

theorem smoothing_b_unknown_window_witness:
  "''box'' \<noteq> ''gaussian'' \<and> ''box'' \<noteq> ''flat''
   \<and> smoothing_b [Fin 1, Fin 2] ''box'' (Some (Fin 1)) (Fin 1) = Inl NotImplementedError"
  using smoothing_b_unknown_window [of "''box''" "[Fin 1, Fin 2]" "Some (Fin 1)" "Fin 1"]
  by simp

subsection \<open>The length of the smoothed signal\<close>

lemma length_np_convolve_full: "length (np_convolve_full a v) = length a + length v - 1"
  by (simp add: np_convolve_full_def)

lemma same_part_fits:
  assumes "0 < m" and "0 < n"
  shows "max m n \<le> m + n - 1 - (min m n - 1) div (2::nat)"
proof -
  have "(min m n - 1) div 2 \<le> min m n - 1" by (rule div_le_dividend)
  moreover have "max m n + (min m n - 1) = m + n - 1"
    using assms by (cases "m \<le> n") (simp_all add: min_def max_def)
  ultimately show ?thesis by linarith
qed

lemma length_np_convolve_same:
  assumes "np_convolve_same a v = Inr y"
  shows "length y = max (length a) (length v)"
proof -
  define k where "k = (min (length a) (length v) - 1) div 2"
  from assms have ne: "a \<noteq> []" "v \<noteq> []"
    by (auto simp: np_convolve_same_def split: if_splits)
  then have pos: "0 < length a" "0 < length v" by simp_all
  from assms ne have y: "y = take (max (length a) (length v)) (drop k (np_convolve_full a v))"
    by (simp add: np_convolve_same_def k_def)
  have "max (length a) (length v) \<le> length a + length v - 1 - k"
    unfolding k_def using pos by (rule same_part_fits)
  then have "max (length a) (length v) \<le> length (drop k (np_convolve_full a v))"
    by (simp only: length_drop length_np_convolve_full)
  then show ?thesis unfolding y by (simp only: length_take min_absorb2)
qed

text \<open>
  What \<^verbatim>\<open>smoothing_b\<close> returns is as long as the longer of the signal and the kernel.
\<close>

lemma smoothed_length:
  assumes "smoothing_b x window width ddt = Inr y"
  shows "\<exists>ker. smoothing_kernel window width ddt = Inr ker
               \<and> length y = max (length x) (length ker)"
  using assms
  by (auto simp: smoothing_b_def length_np_convolve_same split: sum.splits)

lemma flat_kernel_example:
  "smoothing_kernel ''flat'' (Some (Fin 5)) (Fin 1)
   = Inr [Fin (1/5), Fin (1/5), Fin (1/5), Fin (1/5), Fin (1/5)]"
  by (simp add: smoothing_kernel_def smoothing_window_def flat_window_def np_ones_def
      logger_info_def np_sub_def py_trunc_def normalise_def np_sum_def numeral_eq_Suc)

lemma convolve_example:
  "np_convolve_same [Fin 1, Fin 2, Fin 3] [Fin (1/5), Fin (1/5), Fin (1/5), Fin (1/5), Fin (1/5)]
   = Inr [Fin (3/5), Fin (6/5), Fin (6/5), Fin (6/5), Fin 1]"
  by code_simp

text \<open>
  C5 says that the smoothed signal is as long as the input whatever the width of the
  flat kernel, which is also what the docstring of \<^verbatim>\<open>smoothing_b\<close> promises. On a signal
  of 3 samples and a flat kernel of width 5 at sampling interval 1 (5 weights) the
  function returns 5 values.
\<close>

theorem smoothing_b_short_signal:
  "smoothing_b [Fin 1, Fin 2, Fin 3] ''flat'' (Some (Fin 5)) (Fin 1)
   = Inr [Fin (3/5), Fin (6/5), Fin (6/5), Fin (6/5), Fin 1]"
  by (simp add: smoothing_b_def flat_kernel_example convolve_example)

subsection \<open>The kernels\<close>

lemma py_int_Inr: "py_int v = Inr t \<Longrightarrow> \<exists>q. v = Fin q \<and> t = py_trunc q"
  by (cases v) auto

lemma np_round_Fin:
  "np_round v = Fin r \<Longrightarrow> \<exists>q. v = Fin q \<and> r = real_of_int (round_half_even q)"
  by (cases v) auto

lemma sum_list_positive:
  fixes es :: "real list"
  assumes "es \<noteq> []" and "\<forall>e\<in>set es. 0 < e"
  shows "0 < sum_list es"
  using assms
proof (induction es)
  case Nil
  then show ?case by simp
next
  case (Cons e es)
  from Cons.prems have "0 < e" by simp
  moreover from Cons.prems have "0 \<le> sum_list es"
    by (intro sum_list_nonneg) (simp add: less_imp_le)
  ultimately show ?case by simp
qed

lemma normalise_Fin:
  assumes "sum_list es \<noteq> 0"
  shows "normalise (map Fin es) = map Fin (map (\<lambda>e. e / sum_list es) es)"
  using assms by (simp add: normalise_def np_sum_Fin)

text \<open>Finite positive weights, at least one, sum to 1 once normalised.\<close>

lemma normalise_unit_sum:
  assumes "es \<noteq> []" and "\<forall>e\<in>set es. 0 < e"
  shows "np_sum (normalise (map Fin es)) = Fin 1"
proof -
  from sum_list_positive [OF assms] have nz: "sum_list es \<noteq> 0" by simp
  have "sum_list (map (\<lambda>e. e / sum_list es) es) = sum_list es / sum_list es"
    by (simp add: divide_inverse sum_list_mult_const)
  with nz show ?thesis
    by (simp add: normalise_Fin [OF nz] np_sum_Fin del: map_map)
qed

lemma flat_window_shape:
  assumes "flat_window width ddt = Inr win"
  shows "\<exists>q. np_div (np_div width (Fin 2)) ddt = Fin q \<and> 0 \<le> py_trunc q
             \<and> win = map Fin (replicate (nat (2 * py_trunc q + 1)) 1)"
proof -
  from assms obtain t where t: "py_int (np_div (np_div width (Fin 2)) ddt) = Inr t"
    and ones: "np_ones (t * 2 + 1) = Inr win"
    by (auto simp: flat_window_def Let_def logger_info_def split: sum.splits if_splits)
  from py_int_Inr [OF t] obtain q where q: "np_div (np_div width (Fin 2)) ddt = Fin q"
    "t = py_trunc q" by blast
  from ones have "0 \<le> t * 2 + 1" and win: "win = replicate (nat (t * 2 + 1)) (Fin 1)"
    by (auto simp: np_ones_def split: if_splits)
  then have "0 \<le> t" by linarith
  with q win show ?thesis by (simp add: mult.commute)
qed

text \<open>The flat kernel is built for every width and interval with \<open>width/2/ddt > -1\<close>.\<close>

lemma flat_kernel_built:
  assumes "d \<noteq> 0" and "- 1 < w / 2 / d"
  shows "\<exists>ker. smoothing_kernel ''flat'' (Some (Fin w)) (Fin d) = Inr ker"
proof -
  from assms(2) have "0 \<le> py_trunc (w / 2 / d)"
    unfolding py_trunc_def by (simp add: le_ceiling_iff)
  then have "\<not> py_trunc (w / 2 / d) * 2 + 1 < 0" by linarith
  with assms(1) show ?thesis
    by (simp add: smoothing_kernel_def smoothing_window_def flat_window_def np_ones_def
        Let_def logger_info_def)
qed

lemma flat_kernel_example_odd:
  "smoothing_kernel ''flat'' (Some (Fin 3)) (Fin 1) = Inr [Fin (1/3), Fin (1/3), Fin (1/3)]"
  by (simp add: smoothing_kernel_def smoothing_window_def flat_window_def np_ones_def
      logger_info_def np_sub_def py_trunc_def normalise_def np_sum_def numeral_eq_Suc)

text \<open>
  C4, as stated: the flat kernel has \<open>2*round(width/2/ddt) + 1\<close> weights. The code
  truncates where the claim rounds: for width 3 at sampling interval 1 (an odd multiple
  of the interval, so that no adjustment is reported) the kernel has 3 weights, and the
  formula of the claim gives 5, whether a tie is rounded to the even integer or upward.
\<close>

theorem flat_kernel_truncates:
  "smoothing_kernel ''flat'' (Some (Fin 3)) (Fin 1) = Inr [Fin (1/3), Fin (1/3), Fin (1/3)]
   \<and> 2 * round_half_even (3 / 2 / 1) + 1 = 5
   \<and> 2 * round (3 / 2 / 1 :: real) + 1 = 5"
  by (simp add: flat_kernel_example_odd round_half_even_def round_def Let_def)

text \<open>
  C4, amended. Whenever \<^verbatim>\<open>smoothing_b\<close> builds a flat kernel, \<open>width/2/ddt\<close> is finite and
  the kernel has \<open>2*trunc(width/2/ddt) + 1\<close> weights, \<open>trunc\<close> truncating toward zero;
  that number is odd, and every weight is 1 over it, so that the weights sum to 1.
\<close>

theorem flat_kernel_length:
  assumes "smoothing_kernel ''flat'' (Some width) ddt = Inr ker"
  shows "\<exists>q. np_div (np_div width (Fin 2)) ddt = Fin q
            \<and> int (length ker) = 2 * py_trunc q + 1 \<and> odd (length ker)
            \<and> ker = replicate (length ker) (Fin (1 / real (length ker)))
            \<and> np_sum ker = Fin 1"
proof -
  from assms obtain win where win: "flat_window width ddt = Inr win" and ker: "ker = normalise win"
    by (auto simp: smoothing_kernel_def smoothing_window_def split: sum.splits)
  from flat_window_shape [OF win] obtain q where
    q: "np_div (np_div width (Fin 2)) ddt = Fin q" and t: "0 \<le> py_trunc q"
    and w: "win = map Fin (replicate (nat (2 * py_trunc q + 1)) 1)" by blast
  define n where "n = nat (2 * py_trunc q + 1)"
  from t have n: "int n = 2 * py_trunc q + 1" and pos: "0 < n" by (simp_all add: n_def)
  have s: "sum_list (replicate n (1::real)) = real n"
    by (simp add: sum_list_replicate)
  from pos have nz: "sum_list (replicate n (1::real)) \<noteq> 0" by (simp add: s)
  have k: "ker = replicate n (Fin (1 / real n))"
    unfolding ker w n_def [symmetric] normalise_Fin [OF nz] s by simp
  have len: "length ker = n" by (simp add: k)
  have "odd (int n)" unfolding n by simp
  then have odd: "odd n" by simp
  have "np_sum (normalise (map Fin (replicate n 1))) = Fin 1"
    using pos by (intro normalise_unit_sum) auto
  then have one: "np_sum ker = Fin 1" by (simp add: ker w n_def)
  from q n odd k one show ?thesis unfolding len by blast
qed

theorem flat_kernel_length_witness:
  "smoothing_kernel ''flat'' (Some (Fin 3)) (Fin 1) = Inr [Fin (1/3), Fin (1/3), Fin (1/3)]
   \<and> np_div (np_div (Fin 3) (Fin 2)) (Fin 1) = Fin (3/2)
   \<and> int (length [Fin (1/3), Fin (1/3), Fin (1/3)]) = 2 * py_trunc (3/2) + 1
   \<and> np_sum [Fin (1/3), Fin (1/3), Fin (1/3)] = Fin 1"
  using flat_kernel_length [OF flat_kernel_example_odd] flat_kernel_example_odd
  by (auto simp: py_trunc_def)

lemma gaussian_window_shape:
  assumes "gaussian_window w ddt = Inr win" and "gaussian_denominator w ddt \<noteq> Fin 0"
  shows "\<exists>q n. win = map Fin (map (\<lambda>k. exp (- real_of_int (k * k) / (2 * (q * q)))) [- n..n])"
proof -
  from assms(1) obtain n where
    n: "py_int (np_round (np_div (np_mul (Fin 2) w) ddt)) = Inr n"
    and win: "win = map (\<lambda>k. np_exp (np_div (np_mul (Fin (real_of_int (- (k * k)))) (Fin 1))
                                    (gaussian_denominator w ddt)))
                 [- n..n]"
    by (auto simp: gaussian_window_def split: sum.splits)
  from py_int_Inr [OF n] obtain r where "np_round (np_div (np_mul (Fin 2) w) ddt) = Fin r"
    by blast
  from np_round_Fin [OF this] obtain r' where r': "np_div (np_mul (Fin 2) w) ddt = Fin r'"
    by blast
  have "\<exists>a b. w = Fin a \<and> ddt = Fin b \<and> b \<noteq> 0 \<and> a / b \<noteq> 0"
    using r' assms(2)
    by (cases w; cases ddt) (auto simp: gaussian_denominator_def split: if_splits)
  then obtain a b where ab: "w = Fin a" "ddt = Fin b" "b \<noteq> 0" "a / b \<noteq> 0" by blast
  then have q: "gaussian_denominator w ddt = Fin (2 * (a / b * (a / b)))"
    by (simp add: gaussian_denominator_def)
  from ab have den: "2 * (a / b * (a / b)) \<noteq> 0" by simp
  have "win = map Fin (map (\<lambda>k. exp (- real_of_int (k * k) / (2 * (a / b * (a / b))))) [- n..n])"
    unfolding win q using den by simp
  then show ?thesis by blast
qed

lemma gaussian_zero_kernel: "smoothing_kernel ''gaussian'' (Some (Fin 0)) (Fin 1) = Inr [NaN]"
  by (simp add: smoothing_kernel_def smoothing_window_def gaussian_window_def
      gaussian_denominator_def py_trunc_def normalise_def np_sum_def round_half_even_def Let_def)

lemma convolve_nan_example: "np_convolve_same [Fin 1, Fin 2] [NaN] = Inr [NaN, NaN]"
  by code_simp

text \<open>
  C8, as stated: for every width and sampling interval the weights that are applied sum
  to 1. For the Gaussian window of width 0 the exponent is \<open>0/0\<close>: the kernel that is
  applied is the single weight NaN, its sum is NaN, and so is every smoothed value.
\<close>

theorem gaussian_zero_width:
  "smoothing_kernel ''gaussian'' (Some (Fin 0)) (Fin 1) = Inr [NaN]
   \<and> np_sum [NaN] = NaN \<and> np_sum [NaN] \<noteq> Fin 1
   \<and> smoothing_b [Fin 1, Fin 2] ''gaussian'' (Some (Fin 0)) (Fin 1) = Inr [NaN, NaN]"
  by (simp add: smoothing_b_def gaussian_zero_kernel convolve_nan_example np_sum_def)

text \<open>
  C8, amended. Whenever \<^verbatim>\<open>smoothing_b\<close> returns a smoothed signal and, for the Gaussian
  window, the denominator \<open>2*(width/ddt)**2\<close> of the exponent, as the function computes
  it, is not zero, the normalised kernel that was applied sums to 1 (in exact
  arithmetic).
\<close>

theorem kernel_unit_sum:
  assumes "smoothing_b x window (Some w) ddt = Inr y"
    and "window = ''flat'' \<or> gaussian_denominator w ddt \<noteq> Fin 0"
  shows "\<exists>ker. smoothing_kernel window (Some w) ddt = Inr ker \<and> np_sum ker = Fin 1"
proof -
  from assms(1) obtain ker where ker: "smoothing_kernel window (Some w) ddt = Inr ker"
    and conv: "np_convolve_same x ker = Inr y"
    by (auto simp: smoothing_b_def split: sum.splits)
  from conv have ne: "ker \<noteq> []"
    by (auto simp: np_convolve_same_def split: if_splits)
  from ker obtain win where win: "smoothing_window window (Some w) ddt = Inr win"
    and k: "ker = normalise win"
    by (auto simp: smoothing_kernel_def split: sum.splits)
  from k ne have wne: "win \<noteq> []" by (auto simp: normalise_def)
  from win have shape: "window = ''gaussian'' \<or> window = ''flat''"
    by (auto simp: smoothing_window_def split: if_splits)
  have "\<exists>es. win = map Fin es \<and> (\<forall>e\<in>set es. 0 < e)"
  proof (cases "window = ''flat''")
    case True
    with win have "flat_window w ddt = Inr win" by (simp add: smoothing_window_def)
    from flat_window_shape [OF this] obtain q where
      "win = map Fin (replicate (nat (2 * py_trunc q + 1)) 1)" by blast
    moreover have "\<forall>e\<in>set (replicate (nat (2 * py_trunc q + 1)) (1::real)). 0 < e" by simp
    ultimately show ?thesis by blast
  next
    case False
    with shape have g: "window = ''gaussian''" by simp
    with win have gw: "gaussian_window w ddt = Inr win" by (simp add: smoothing_window_def)
    from False assms(2) have "gaussian_denominator w ddt \<noteq> Fin 0" by simp
    from gaussian_window_shape [OF gw this] obtain q n where
      "win = map Fin (map (\<lambda>k. exp (- real_of_int (k * k) / (2 * (q * q)))) [- n..n])" by blast
    moreover have
      "\<forall>e\<in>set (map (\<lambda>k. exp (- real_of_int (k * k) / (2 * (q * q)))) [- n..n]). 0 < e"
      by simp
    ultimately show ?thesis by blast
  qed
  then obtain es where es: "win = map Fin es" "\<forall>e\<in>set es. 0 < e" by blast
  with wne have "es \<noteq> []" by auto
  from normalise_unit_sum [OF this es(2)] have "np_sum ker = Fin 1" by (simp add: k es(1))
  with ker show ?thesis by blast
qed

text \<open>
  A Gaussian kernel of three weights: width 0.5 at sampling interval 1 gives the
  offsets \<open>-1, 0, 1\<close> and the weights \<open>exp(-2), 1, exp(-2)\<close> before normalisation.
\<close>

lemma upto_example: "[- 1..1::int] = [- 1, 0, 1]"
  by code_simp

lemma exp_sum_nonzero: "2 * exp (- 2) + (1::real) \<noteq> 0"
proof -
  have "0 < 2 * exp (- 2) + (1::real)" by (simp add: add_pos_pos)
  then show ?thesis by simp
qed

lemma gaussian_kernel_example:
  "smoothing_kernel ''gaussian'' (Some (Fin (1/2))) (Fin 1)
   = Inr [Fin (exp (- 2) / (1 + 2 * exp (- 2))), Fin (1 / (1 + 2 * exp (- 2))),
          Fin (exp (- 2) / (1 + 2 * exp (- 2)))]"
  using exp_sum_nonzero
  by (simp add: smoothing_kernel_def smoothing_window_def gaussian_window_def
      gaussian_denominator_def py_trunc_def normalise_def np_sum_def round_half_even_def Let_def
      upto_example)

lemma convolve_three:
  "np_convolve_same [Fin x1, Fin x2, Fin x3] [Fin a, Fin b, Fin c]
   = Inr [Fin (x1 * b + x2 * a), Fin (x1 * c + x2 * b + x3 * a), Fin (x2 * c + x3 * b)]"
  by (simp add: np_convolve_same_def np_convolve_full_def np_sum_def numeral_eq_Suc)

theorem kernel_unit_sum_witness:
  "smoothing_b [Fin 1, Fin 2, Fin 3] ''gaussian'' (Some (Fin (1/2))) (Fin 1)
   = Inr [Fin (1 * (1 / (1 + 2 * exp (- 2))) + 2 * (exp (- 2) / (1 + 2 * exp (- 2)))),
          Fin (1 * (exp (- 2) / (1 + 2 * exp (- 2))) + 2 * (1 / (1 + 2 * exp (- 2)))
               + 3 * (exp (- 2) / (1 + 2 * exp (- 2)))),
          Fin (2 * (exp (- 2) / (1 + 2 * exp (- 2))) + 3 * (1 / (1 + 2 * exp (- 2))))]
   \<and> gaussian_denominator (Fin (1/2)) (Fin 1) = Fin (1/2)
   \<and> gaussian_denominator (Fin (1/2)) (Fin 1) \<noteq> Fin 0
   \<and> smoothing_kernel ''gaussian'' (Some (Fin (1/2))) (Fin 1)
     = Inr [Fin (exp (- 2) / (1 + 2 * exp (- 2))), Fin (1 / (1 + 2 * exp (- 2))),
            Fin (exp (- 2) / (1 + 2 * exp (- 2)))]
   \<and> np_sum [Fin (exp (- 2) / (1 + 2 * exp (- 2))), Fin (1 / (1 + 2 * exp (- 2))),
             Fin (exp (- 2) / (1 + 2 * exp (- 2)))] = Fin 1"
proof -
  have h1: "smoothing_b [Fin 1, Fin 2, Fin 3] ''gaussian'' (Some (Fin (1/2))) (Fin 1)
   = Inr [Fin (1 * (1 / (1 + 2 * exp (- 2))) + 2 * (exp (- 2) / (1 + 2 * exp (- 2)))),
          Fin (1 * (exp (- 2) / (1 + 2 * exp (- 2))) + 2 * (1 / (1 + 2 * exp (- 2)))
               + 3 * (exp (- 2) / (1 + 2 * exp (- 2)))),
          Fin (2 * (exp (- 2) / (1 + 2 * exp (- 2))) + 3 * (1 / (1 + 2 * exp (- 2))))]"
    unfolding smoothing_b_def gaussian_kernel_example sum.case convolve_three ..
  have d: "gaussian_denominator (Fin (1/2)) (Fin 1) = Fin (1/2)"
    by (simp add: gaussian_denominator_def)
  then have h2: "''gaussian'' = ''flat'' \<or> gaussian_denominator (Fin (1/2)) (Fin 1) \<noteq> Fin 0"
    by simp
  from kernel_unit_sum [OF h1 h2] obtain ker where
    "smoothing_kernel ''gaussian'' (Some (Fin (1/2))) (Fin 1) = Inr ker" "np_sum ker = Fin 1"
    by blast
  then have "np_sum [Fin (exp (- 2) / (1 + 2 * exp (- 2))), Fin (1 / (1 + 2 * exp (- 2))),
             Fin (exp (- 2) / (1 + 2 * exp (- 2)))] = Fin 1"
    unfolding gaussian_kernel_example by simp
  with h1 d gaussian_kernel_example show ?thesis by simp
qed

section \<open>Properties of \<^verbatim>\<open>neurons_firing\<close>\<close>

lemma np_mul_one: "np_mul v (Fin 1) = v"
  by (cases v) simp_all

lemma np_unique_sorted: "np_unique xs = sorted_list_of_set (set xs)"
  by (simp add: np_unique_def sorted_list_of_set_sort_remdups)

lemma firing_loop_rates:
  assumes "length t_spikes = length neurons_i"
  shows "firing_loop t_spikes neurons_i t0 t1 (np_sub t1 t0) inds acc
         = Inr (acc @ map (open_rate t_spikes neurons_i t0 t1) inds)"
proof (induction inds arbitrary: acc)
  case Nil
  show ?case by simp
next
  case (Cons ind rest)
  show ?case
    using assms by (simp add: Cons.IH open_rate_def split_def)
qed

lemma neurons_firing_example:
  "neurons_firing [Fin (1/10), Fin (2/10), Fin (3/10), Fin (4/10)] [0, 1, 0, 0] (Fin 0) (Fin 1)
   = Inr [Fin 3, Fin 1]"
  by code_simp

text \<open>
  C6, as stated: a spike counts when its timestamp is in \<open>[t0, t1)\<close>. The code compares
  with \<^verbatim>\<open>spk > time_start\<close>: of two spikes of neuron 0 at 0 and 0.5, the window from 0
  to 1 counts one, and the rate is 1 where the claim gives 2.
\<close>

theorem neurons_firing_boundary_spike:
  "neurons_firing [Fin 0, Fin (1/2)] [0, 0] (Fin 0) (Fin 1) = Inr [Fin 1]
   \<and> spec_rate [Fin 0, Fin (1/2)] [0, 0] (Fin 0) (Fin 1) 0 = Fin 2"
  by code_simp

text \<open>
  C6, amended. For parallel arrays of timestamps and neuron indices, \<^verbatim>\<open>neurons_firing\<close>
  returns one rate for each distinct index of the index array, in ascending order of
  the index: the number of spikes of that neuron with a timestamp strictly between
  \<open>t0\<close> and \<open>t1\<close>, divided by \<open>t1 - t0\<close>. Three spikes of neuron 0 and one of neuron 1
  inside a window of one second give the rates \<open>[3.0, 1.0]\<close>.
\<close>

theorem neurons_firing_rates:
  assumes "length t_spikes = length neurons_i"
  shows "neurons_firing t_spikes neurons_i t0 t1
         = Inr (map (open_rate t_spikes neurons_i t0 t1) (sorted_list_of_set (set neurons_i)))
         \<and> neurons_firing [Fin (1/10), Fin (2/10), Fin (3/10), Fin (4/10)] [0, 1, 0, 0]
             (Fin 0) (Fin 1) = Inr [Fin 3, Fin 1]"
  using firing_loop_rates [OF assms, of t0 t1 "np_unique neurons_i" "[]"] neurons_firing_example
  by (simp add: neurons_firing_def second_def np_mul_one np_unique_sorted)

lemma open_rate_example:
  "map (open_rate [Fin 0, Fin (1/2), Fin (3/4)] [7, 7, 2] (Fin 0) (Fin 1)) [2, 7] = [Fin 1, Fin 1]"
  by code_simp

theorem neurons_firing_rates_witness:
  "length [Fin 0, Fin (1/2), Fin (3/4)] = length [7, 7, 2 :: int]
   \<and> neurons_firing [Fin 0, Fin (1/2), Fin (3/4)] [7, 7, 2] (Fin 0) (Fin 1) = Inr [Fin 1, Fin 1]"
proof -
  have h: "length [Fin 0, Fin (1/2), Fin (3/4)] = length [7, 7, 2 :: int]" by simp
  have s: "sorted_list_of_set (set [7, 7, 2 :: int]) = [2, 7]"
    by (simp add: sorted_list_of_set_sort_remdups)
  from neurons_firing_rates [OF h, of "Fin 0" "Fin 1"] h show ?thesis
    unfolding s open_rate_example by simp
qed

section \<open>Properties of \<^verbatim>\<open>standard_error_I\<close>\<close>

lemma py_slice_bound_nat: "py_slice_bound (int n) (int k) = int (min n k)"
  by (simp add: py_slice_bound_def)

lemma py_slice_window:
  "py_slice xs (int i * int W) ((int i + 1) * int W) = take W (drop (i * W) xs)"
proof -
  have lo: "int i * int W = int (i * W)" by simp
  have hi: "(int i + 1) * int W = int (i * W + W)" by (simp add: algebra_simps)
  have "py_slice xs (int i * int W) ((int i + 1) * int W)
        = take (min (length xs) (i * W + W) - min (length xs) (i * W))
            (drop (min (length xs) (i * W)) xs)"
    unfolding py_slice_def Let_def lo hi py_slice_bound_nat
    by (simp add: nat_diff_distrib' del: of_nat_mult of_nat_add of_nat_min)
  also have "\<dots> = take W (drop (i * W) xs)"
  proof (cases "i * W \<le> length xs")
    case True
    then show ?thesis by (cases "i * W + W \<le> length xs") (simp_all add: min_def)
  next
    case False
    then show ?thesis by (simp add: min_def)
  qed
  finally show ?thesis .
qed

lemma window_loop_maps:
  "window_loop I (int W) is ms sds
   = (ms @ map (\<lambda>i. np_mean (take W (drop (i * W) I))) is,
      sds @ map (\<lambda>i. np_std (take W (drop (i * W) I))) is)"
  by (induction "is" arbitrary: ms sds) (simp_all add: py_slice_window Let_def)

lemma py_trunc_div:
  assumes "0 < n"
  shows "py_trunc (real_of_int (int N) / real_of_int (int n)) = int (N div n)"
proof -
  have "0 \<le> real_of_int (int N) / real_of_int (int n)" by simp
  then show ?thesis
    unfolding py_trunc_def by (simp add: floor_divide_of_nat_eq)
qed

lemma np_amax_nonempty: "xs \<noteq> [] \<Longrightarrow> \<exists>m. np_amax xs = Inr m"
  by (cases xs) (simp_all add: np_amax_def)

lemma np_amin_nonempty: "xs \<noteq> [] \<Longrightarrow> \<exists>m. np_amin xs = Inr m"
  by (cases xs) (simp_all add: np_amin_def)

text \<open>On finite values \<^verbatim>\<open>max()\<close> and \<^verbatim>\<open>min()\<close> are the greatest and the least element.\<close>

lemma foldl_np_maximum_Fin: "foldl np_maximum (Fin a) (map Fin rs) = Fin (fold max rs a)"
  by (induction rs arbitrary: a) (simp_all add: np_maximum_def max_def)

lemma np_amax_Fin: "rs \<noteq> [] \<Longrightarrow> np_amax (map Fin rs) = Inr (Fin (Max (set rs)))"
  by (cases rs) (simp_all add: np_amax_def foldl_np_maximum_Fin Max.set_eq_fold del: set_simps)

lemma foldl_np_minimum_Fin: "foldl np_minimum (Fin a) (map Fin rs) = Fin (fold min rs a)"
  by (induction rs arbitrary: a) (simp_all add: np_minimum_def min_def)

lemma np_amin_Fin: "rs \<noteq> [] \<Longrightarrow> np_amin (map Fin rs) = Inr (Fin (Min (set rs)))"
  by (cases rs) (simp_all add: np_amin_def foldl_np_minimum_Fin Min.set_eq_fold del: set_simps)

text \<open>The result for every sequence, in the terms of numpy.\<close>

lemma standard_error_I_general:
  assumes "0 < n"
  shows "\<exists>mx mn. np_amax (np_window_means I n) = Inr mx
           \<and> np_amin (np_window_means I n) = Inr mn
           \<and> standard_error_I I (int n)
             = Inr (np_mean (np_window_means I n),
                    if int n < 30 then np_div (np_sub mx mn) (Fin 2)
                    else quadrature (np_window_stds I n))"
proof -
  define ms where "ms = np_window_means I n"
  have "ms \<noteq> []" using assms by (simp add: ms_def np_window_means_def)
  from np_amax_nonempty [OF this] np_amin_nonempty [OF this] obtain mx mn where
    m: "np_amax ms = Inr mx" "np_amin ms = Inr mn" by blast
  have W: "py_trunc (real_of_int (int (length I)) / real_of_int (int n)) = int (length I div n)"
    using assms by (rule py_trunc_div)
  have loop: "window_loop I (int (length I div n)) [0..<n] [] []
              = (np_window_means I n, np_window_stds I n)"
    by (simp add: window_loop_maps np_window_means_def np_window_stds_def spec_window_def
        Let_def)
  have "standard_error_I I (int n)
        = Inr (np_mean ms, if int n < 30 then np_div (np_sub mx mn) (Fin 2)
                           else quadrature (np_window_stds I n))"
    unfolding standard_error_I_def Let_def W using assms m
    by (simp add: loop half_range_def ms_def [symmetric])
  with m show ?thesis unfolding ms_def by simp
qed

text \<open>With at least \<open>n\<close> samples every window has a sample, so every window mean is finite.\<close>

lemma window_full:
  assumes "n \<le> length rs" and "i < n"
  shows "spec_window rs n i \<noteq> []"
proof -
  define W where "W = length rs div n"
  from assms have n: "0 < n" by simp
  from assms(1) n have W: "0 < W" by (simp add: W_def div_greater_zero_iff)
  have "Suc i * W \<le> n * W" using assms(2) by (intro mult_le_mono1) simp
  also have "\<dots> \<le> length rs" by (simp add: W_def)
  finally have "i * W < length rs" using W by simp
  with W show ?thesis by (simp add: spec_window_def W_def [symmetric])
qed

lemma spec_window_Fin: "spec_window (map Fin rs) n i = map Fin (spec_window rs n i)"
  by (simp add: spec_window_def Let_def take_map drop_map)

lemma finite_window_means:
  assumes "n \<le> length rs"
  shows "np_window_means (map Fin rs) n = map Fin (spec_window_means rs n)"
  unfolding np_window_means_def spec_window_means_def map_map
proof (rule map_cong [OF refl])
  fix i assume "i \<in> set [0..<n]"
  then have "i < n" by simp
  from window_full [OF assms this] show
    "np_mean (spec_window (map Fin rs) n i) = (Fin \<circ> (\<lambda>i. spec_mean (spec_window rs n i))) i"
    by (simp add: spec_window_Fin np_mean_Fin spec_mean_def)
qed

text \<open>With fewer than \<open>n\<close> samples every window is empty, and its mean and deviation NaN.\<close>

lemma empty_window_means:
  assumes "length rs < n"
  shows "np_window_means (map Fin rs) n = replicate n NaN"
    and "np_window_stds (map Fin rs) n = replicate n NaN"
  using assms
  by (simp_all add: np_window_means_def np_window_stds_def spec_window_def
      np_mean_def np_sum_def np_std_def map_replicate_const)

lemma foldl_np_maximum_NaN: "foldl np_maximum NaN xs = NaN"
  by (induction xs) (simp_all add: np_maximum_def)

lemma foldl_np_minimum_NaN: "foldl np_minimum NaN xs = NaN"
  by (induction xs) (simp_all add: np_minimum_def)

lemma np_sum_NaN: "0 < n \<Longrightarrow> np_sum (replicate n NaN) = NaN"
  by (cases n) (simp_all add: np_sum_def foldl_np_add_NaN)

text \<open>
  C10. For finite samples and \<open>N_mean \<ge> 2\<close>, \<^verbatim>\<open>standard_error_I(I, N_mean)\<close> returns a
  pair. Its first component is the mean of the \<open>N_mean\<close> window means, window \<open>i\<close> being
  \<open>I[i*W : (i+1)*W]\<close> with \<open>W = floor(len(I)/N_mean)\<close>. Its second component is half of
  the greatest window mean minus the least one exactly when \<open>N_mean < 30\<close> (from 30 on
  it is the quadrature sum of the window deviations over their number). With fewer
  than \<open>N_mean\<close> samples the windows are empty, and both components are NaN, the mean of
  nothing.
\<close>

theorem standard_error_I_result:
  assumes "2 \<le> N_mean"
  shows "standard_error_I (map Fin rs) N_mean
         = Inr (if nat N_mean \<le> length rs
                then (Fin (spec_mean (spec_window_means rs (nat N_mean))),
                      if N_mean < 30
                      then Fin ((Max (set (spec_window_means rs (nat N_mean)))
                                 - Min (set (spec_window_means rs (nat N_mean)))) / 2)
                      else quadrature (np_window_stds (map Fin rs) (nat N_mean)))
                else (NaN, NaN))"
proof -
  define n where "n = nat N_mean"
  from assms have n: "N_mean = int n" "0 < n" by (simp_all add: n_def)
  from standard_error_I_general [OF n(2), of "map Fin rs"] obtain mx mn where
    mx: "np_amax (np_window_means (map Fin rs) n) = Inr mx"
    and mn: "np_amin (np_window_means (map Fin rs) n) = Inr mn"
    and r: "standard_error_I (map Fin rs) (int n)
            = Inr (np_mean (np_window_means (map Fin rs) n),
                   if int n < 30 then np_div (np_sub mx mn) (Fin 2)
                   else quadrature (np_window_stds (map Fin rs) n))"
    by blast
  show ?thesis
  proof (cases "n \<le> length rs")
    case True
    define ms where "ms = spec_window_means rs n"
    have ne: "ms \<noteq> []" using n(2) by (simp add: ms_def spec_window_means_def)
    have fm: "np_window_means (map Fin rs) n = map Fin ms"
      unfolding ms_def using True by (rule finite_window_means)
    from mx have "mx = Fin (Max (set ms))" unfolding fm np_amax_Fin [OF ne] by simp
    moreover from mn have "mn = Fin (Min (set ms))" unfolding fm np_amin_Fin [OF ne] by simp
    moreover have "np_mean (map Fin ms) = Fin (spec_mean ms)"
      using ne by (simp add: np_mean_Fin spec_mean_def)
    ultimately show ?thesis
      using r True unfolding fm n(1) n_def [symmetric]
      by (simp add: np_sub_def ms_def)
  next
    case False
    then have lt: "length rs < n" by simp
    note e = empty_window_means [OF lt]
    obtain m where m: "n = Suc m" using n(2) by (cases n) auto
    from mx have "mx = NaN"
      unfolding e by (simp add: m np_amax_def foldl_np_maximum_NaN)
    moreover from mn have "mn = NaN"
      unfolding e by (simp add: m np_amin_def foldl_np_minimum_NaN)
    moreover have "np_mean (replicate n NaN) = NaN"
      using n(2) by (simp add: np_mean_def np_sum_NaN)
    moreover have "quadrature (replicate n NaN) = NaN"
      using n(2) by (simp add: quadrature_def np_sum_NaN)
    ultimately show ?thesis
      using r False unfolding e n(1) n_def [symmetric]
      by (simp add: np_sub_def)
  qed
qed

text \<open>Six samples in three windows, whose means 4, 8 and 2 are in no order.\<close>

lemma window_means_example: "spec_window_means [5, 3, 9, 7, 1, 3] 3 = [4, 8, 2]"
  by code_simp

theorem standard_error_I_result_witness:
  "(2::int) \<le> 3
   \<and> standard_error_I (map Fin [5, 3, 9, 7, 1, 3]) 3 = Inr (Fin (14 / 3), Fin 3)"
proof -
  have h: "(2::int) \<le> 3" by simp
  from standard_error_I_result [OF h, of "[5, 3, 9, 7, 1, 3]"] show ?thesis
    by (simp add: window_means_example spec_mean_def)
qed

end
